theory Spec2Isabelle
  imports Main
begin

section \<open>Strings the way the TypeScript uses them\<close>

text \<open>
  A JavaScript string is modelled as a \<^typ>\<open>string\<close>, one \<^typ>\<open>char\<close> per UTF-16 code
  unit, so that \<open>length\<close> is the source's \<open>.length\<close>.
\<close>

definition startsWith :: "string \<Rightarrow> string \<Rightarrow> bool" where
  "startsWith s p = (take (length p) s = p)"

definition endsWith :: "string \<Rightarrow> string \<Rightarrow> bool" where
  "endsWith s p = (length p \<le> length s \<and> drop (length s - length p) s = p)"

fun join :: "string \<Rightarrow> string list \<Rightarrow> string" where
  "join sep [] = []"
| "join sep [x] = x"
| "join sep (x # y # ys) = x @ sep @ join sep (y # ys)"

section \<open>Context assembly under a token budget (architecture-agent.ts)\<close>

text \<open>
  \<open>vscode.workspace.fs.readFile\<close> is a partial map from workspace-relative paths to file
  contents; \<open>None\<close> is a read that throws. The optional language model is given by its
  \<open>countTokens\<close> method, where \<open>None\<close> is a call that throws. Token counts and budgets
  are natural numbers.
\<close>

type_synonym readFile = "string \<Rightarrow> string option"

type_synonym countTokens = "string \<Rightarrow> nat option"

definition estimateTokens :: "string \<Rightarrow> nat" where
  \<comment> \<open>\<open>Math.ceil(text.length / 4)\<close>\<close>
  "estimateTokens text = (length text + 3) div 4"

definition safeCountTokens :: "countTokens \<Rightarrow> string \<Rightarrow> nat" where
  "safeCountTokens model text =
     (case model text of Some count \<Rightarrow> count | None \<Rightarrow> estimateTokens text)"

definition tokenCountOf :: "countTokens option \<Rightarrow> string \<Rightarrow> nat" where
  \<comment> \<open>\<open>model ? await safeCountTokens(model, fileSection) : Math.ceil(fileSection.length / 4)\<close>\<close>
  "tokenCountOf model text =
     (case model of Some m \<Rightarrow> safeCountTokens m text | None \<Rightarrow> estimateTokens text)"

definition fileSection :: "string \<Rightarrow> string \<Rightarrow> string" where
  \<comment> \<open>the template literal \<open>// File: ${relPath}\n${content}\n\<close>\<close>
  "fileSection relPath content = ''// File: '' @ relPath @ [CHR 0x0A] @ content @ [CHR 0x0A]"

text \<open>
  The \<open>for\<close> loop of \<open>gatherSourceContext\<close> over the prioritised paths, with its two
  local variables \<open>sections\<close> and \<open>usedTokens\<close> as the accumulator. An unreadable file is
  the \<open>continue\<close>, a section that does not fit is the \<open>break\<close>.
\<close>

fun gatherLoop ::
  "readFile \<Rightarrow> countTokens option \<Rightarrow> nat \<Rightarrow> string list \<Rightarrow> string list \<times> nat \<Rightarrow> string list \<times> nat"
  where
  "gatherLoop rd model tokenBudget [] acc = acc"
| "gatherLoop rd model tokenBudget (relPath # rest) (sections, usedTokens) =
     (case rd relPath of
        None \<Rightarrow> gatherLoop rd model tokenBudget rest (sections, usedTokens)
      | Some content \<Rightarrow>
          (let section = fileSection relPath content;
               tokenCount = tokenCountOf model section
           in if usedTokens + tokenCount > tokenBudget then (sections, usedTokens)
              else gatherLoop rd model tokenBudget rest
                     (sections @ [section], usedTokens + tokenCount)))"

definition selectedSections :: "readFile \<Rightarrow> countTokens option \<Rightarrow> nat \<Rightarrow> string list \<Rightarrow> string list" where
  "selectedSections rd model tokenBudget prioritized =
     fst (gatherLoop rd model tokenBudget prioritized ([], 0))"

definition gatherSourceContext :: "readFile \<Rightarrow> countTokens option \<Rightarrow> nat \<Rightarrow> string list \<Rightarrow> string" where
  \<comment> \<open>\<open>prioritized\<close> is the result of \<open>prioritizeFiles(collectCandidateFiles(...))\<close>\<close>
  "gatherSourceContext rd model tokenBudget prioritized =
     join ([CHR 0x0A] @ ''---'' @ [CHR 0x0A]) (selectedSections rd model tokenBudget prioritized)"

definition measuredSize :: "countTokens option \<Rightarrow> string list \<Rightarrow> nat" where
  "measuredSize model sections = sum_list (map (tokenCountOf model) sections)"

text \<open>The files and the degenerate token counter used in the worked examples below.\<close>

definition demoFiles :: readFile where
  "demoFiles relPath =
     (if relPath = ''big.ts'' then Some (replicate 40 (CHR ''x''))
      else if relPath = ''small.ts'' then Some ''ok''
      else None)"


section \<open>Snapshot retention (history.ts)\<close>

text \<open>
  The retention directory \<open>.ascii_history\<close> as \<open>vscode.workspace.fs\<close> shows it:
  \<open>readDirectory\<close> lists name and type of every entry (\<open>None\<close> when the directory does
  not exist and the call throws), \<open>stat\<close> gives a modification time in milliseconds
  (\<open>None\<close> when it throws), \<open>delete\<close> may throw for some names.
\<close>

datatype FileType =
  Unknown | File | Directory | SymbolicLink | SymbolicLinkToFile | SymbolicLinkToDirectory

record historyDir =
  entries :: "(string \<times> FileType) list option"
  mtimeOf :: "string \<Rightarrow> nat option"
  deleteFails :: "string \<Rightarrow> bool"
  contentOf :: "string \<Rightarrow> string option"

definition isSnapshotFile :: "string \<times> FileType \<Rightarrow> bool" where
  \<comment> \<open>\<open>type === vscode.FileType.File && name.endsWith(".txt")\<close>\<close>
  "isSnapshotFile e = (snd e = File \<and> endsWith (fst e) ''.txt'')"

definition snapshotNames :: "historyDir \<Rightarrow> string list" where
  "snapshotNames d =
     (case entries d of None \<Rightarrow> [] | Some es \<Rightarrow> map fst (filter isSnapshotFile es))"

definition otherEntries :: "historyDir \<Rightarrow> (string \<times> FileType) list" where
  "otherEntries d =
     (case entries d of None \<Rightarrow> [] | Some es \<Rightarrow> filter (\<lambda>e. \<not> isSnapshotFile e) es)"

definition slice0 :: "'a list \<Rightarrow> int \<Rightarrow> 'a list" where
  \<comment> \<open>\<open>xs.slice(0, end)\<close>: a negative end counts from the end of the array\<close>
  "slice0 xs end =
     (if end < 0 then take (nat (int (length xs) + end)) xs else take (nat end) xs)"

definition deleteFile :: "string \<Rightarrow> historyDir \<Rightarrow> historyDir" where
  \<comment> \<open>\<open>try { await fs.delete(...) } catch { }\<close>: a failing delete leaves the directory as it is\<close>
  "deleteFile name d =
     (if deleteFails d name then d
      else d\<lparr>entries := map_option (filter (\<lambda>e. fst e \<noteq> name)) (entries d)\<rparr>)"

definition statMtime :: "historyDir \<Rightarrow> string \<Rightarrow> nat" where
  \<comment> \<open>a file that cannot be stat'ed gets \<open>mtime = 0\<close>\<close>
  "statMtime d name = (case mtimeOf d name of Some t \<Rightarrow> t | None \<Rightarrow> 0)"

definition pruneSnapshots :: "historyDir \<Rightarrow> int \<Rightarrow> historyDir" where
  "pruneSnapshots d maxSnapshots =
     (case entries d of
        None \<Rightarrow> d
      | Some es \<Rightarrow>
          (let names = map fst (filter isSnapshotFile es) in
           if int (length names) \<le> maxSnapshots then d
           else
             (let withMtimes = map (\<lambda>name. (name, statMtime d name)) names;
                  sorted = sort_key snd withMtimes;
                  targetCount = maxSnapshots - 1;
                  toDelete = slice0 sorted (int (length sorted) - targetCount)
              in fold (\<lambda>x. deleteFile (fst x)) toDelete d)))"

definition snapshotFileName :: "string \<Rightarrow> string" where
  \<comment> \<open>\<open>architecture_${new Date().toISOString().replace(/:/g, "-")}.txt\<close>, from the ISO string\<close>
  "snapshotFileName isoTime =
     ''architecture_'' @ map (\<lambda>c. if c = CHR '':'' then CHR ''-'' else c) isoTime @ ''.txt''"

definition writeFile :: "string \<Rightarrow> string \<Rightarrow> nat \<Rightarrow> historyDir \<Rightarrow> historyDir" where
  "writeFile name content mtime d =
     (let es = (case entries d of None \<Rightarrow> [] | Some es \<Rightarrow> es)
      in d\<lparr>entries := Some (if name \<in> fst ` set es then es else es @ [(name, File)]),
           mtimeOf := (mtimeOf d)(name \<mapsto> mtime),
           contentOf := (contentOf d)(name \<mapsto> content)\<rparr>)"

definition saveSnapshot :: "historyDir \<Rightarrow> string \<Rightarrow> nat \<Rightarrow> string \<Rightarrow> historyDir" where
  \<comment> \<open>a save that succeeds; the clock is given by its ISO string and by the modification
      time the written file gets\<close>
  "saveSnapshot d isoTime mtime currentContent =
     writeFile (snapshotFileName isoTime) currentContent mtime
       (d\<lparr>entries := Some (case entries d of None \<Rightarrow> [] | Some es \<Rightarrow> es)\<rparr>)"

text \<open>The caller's sequence (extension.ts): \<open>saveSnapshot\<close>, then \<open>pruneHistory\<close>.\<close>

fun saveAndPruneAll :: "int \<Rightarrow> (string \<times> nat \<times> string) list \<Rightarrow> historyDir \<Rightarrow> historyDir" where
  "saveAndPruneAll maxSnapshots [] d = d"
| "saveAndPruneAll maxSnapshots ((isoTime, mtime, content) # rest) d =
     saveAndPruneAll maxSnapshots rest (pruneSnapshots (saveSnapshot d isoTime mtime content) maxSnapshots)"

definition noHistory :: historyDir where
  "noHistory = \<lparr>entries = None, mtimeOf = (\<lambda>name. None), deleteFails = (\<lambda>name. False),
                 contentOf = (\<lambda>name. None)\<rparr>"

definition fiveSaves :: "(string \<times> nat \<times> string) list" where
  "fiveSaves =
     [(''T1'', 1000, ''v1''), (''T2'', 2000, ''v2''), (''T3'', 3000, ''v3''),
      (''T4'', 4000, ''v4''), (''T5'', 5000, ''v5'')]"

definition mixedDir :: historyDir where
  "mixedDir =
     \<lparr>entries = Some [(''a.txt'', File), (''notes.md'', File), (''old.txt'', Directory),
                       (''b.txt'', File), (''c.txt'', File)],
      mtimeOf = [''a.txt'' \<mapsto> 30, ''b.txt'' \<mapsto> 10, ''c.txt'' \<mapsto> 20],
      deleteFails = (\<lambda>name. False),
      contentOf = (\<lambda>name. None)\<rparr>"

text \<open>The local variable \<open>toDelete\<close> of \<open>pruneSnapshots\<close>, and the names a directory lists.\<close>

definition toDelete :: "historyDir \<Rightarrow> int \<Rightarrow> (string \<times> nat) list" where
  "toDelete d maxSnapshots =
     (let sorted = sort_key snd (map (\<lambda>name. (name, statMtime d name)) (snapshotNames d))
      in slice0 sorted (int (length sorted) - (maxSnapshots - 1)))"

definition entryNames :: "historyDir \<Rightarrow> string list" where
  "entryNames d = (case entries d of None \<Rightarrow> [] | Some es \<Rightarrow> map fst es)"

section \<open>Timers of the JavaScript runtime\<close>

text \<open>
  A pending \<open>setTimeout\<close>: the handle it returned, the instant it is due (milliseconds on a
  simulated clock) and what its callback does. The runtime runs the callback that is due
  first; of two due at the same instant, the one set first.
\<close>

datatype 'a timeout = Timeout (handleOf: nat) (due: nat) (action: 'a)

fun earliest :: "'a timeout list \<Rightarrow> 'a timeout option" where
  "earliest [] = None"
| "earliest (x # xs) =
     (case earliest xs of
        None \<Rightarrow> Some x
      | Some y \<Rightarrow> if due x \<le> due y then Some x else Some y)"

definition nextDue :: "nat \<Rightarrow> 'a timeout list \<Rightarrow> 'a timeout option" where
  "nextDue t queue = earliest (filter (\<lambda>x. due x \<le> t) queue)"

definition withoutHandle :: "nat \<Rightarrow> 'a timeout list \<Rightarrow> 'a timeout list" where
  "withoutHandle h queue = filter (\<lambda>x. handleOf x \<noteq> h) queue"

lemma earliest_mem: "earliest xs = Some y \<Longrightarrow> y \<in> set xs"
  by (induction xs arbitrary: y) (auto split: option.splits if_splits)

lemma earliest_None: "earliest xs = None \<longleftrightarrow> xs = []"
  by (induction xs) (auto split: option.splits)


lemma nextDue_mem: "nextDue t queue = Some x \<Longrightarrow> x \<in> set queue \<and> due x \<le> t"
  unfolding nextDue_def by (auto dest: earliest_mem)


lemma nextDue_None: "nextDue t queue = None \<longleftrightarrow> (\<forall>x \<in> set queue. t < due x)"
  unfolding nextDue_def by (auto simp: earliest_None filter_empty_conv not_le)

lemma withoutHandle_shorter: "x \<in> set queue \<Longrightarrow> length (withoutHandle (handleOf x) queue) < length queue"
  unfolding withoutHandle_def
  by (induction queue) (auto simp: less_Suc_eq_le intro: le_less_trans[OF length_filter_le])

section \<open>The watcher: classification and the two debounce timers (watcher.ts, utils.ts)\<close>

text \<open>
  \<open>minimatch\<close> of utils.ts compiles a glob to a \<open>RegExp\<close> and tests the path with it; the
  regular-expression engine is the runtime's, so the matcher is a parameter of the model.
\<close>

type_synonym minimatch = "string \<Rightarrow> string \<Rightarrow> bool"

definition matchesAnyPattern :: "minimatch \<Rightarrow> string \<Rightarrow> string list \<Rightarrow> bool" where
  "matchesAnyPattern mm filePath patterns = list_ex (\<lambda>pattern. mm filePath pattern) patterns"

definition toForwardSlashes :: "string \<Rightarrow> string" where
  \<comment> \<open>\<open>.replace(/\\/g, "/")\<close>\<close>
  "toForwardSlashes s = map (\<lambda>c. if c = CHR 0x5C then CHR ''/'' else c) s"

definition stripTrailingSlash :: "string \<Rightarrow> string" where
  \<comment> \<open>\<open>.replace(/\/$/, "")\<close>\<close>
  "stripTrailingSlash s = (if s \<noteq> [] \<and> last s = CHR ''/'' then butlast s else s)"

definition workspaceRelativePath :: "string \<Rightarrow> string \<Rightarrow> string" where
  \<comment> \<open>both arguments are the \<open>fsPath\<close> of the URI\<close>
  "workspaceRelativePath uri workspaceRoot =
     (let rootPath = stripTrailingSlash (toForwardSlashes workspaceRoot);
          filePath = toForwardSlashes uri
      in if startsWith filePath (rootPath @ ''/'') then drop (length rootPath + 1) filePath
         else filePath)"

definition lastSegment :: "string \<Rightarrow> string" where
  \<comment> \<open>\<open>relPath.split("/").pop() ?? ""\<close>\<close>
  "lastSegment relPath = rev (takeWhile (\<lambda>c. c \<noteq> CHR ''/'') (rev relPath))"

record AsciiAgentConfig =
  ignore :: "string list"
  architectureWatchPatterns :: "string list"
  outputPaths_fileTree :: string
  outputPaths_architecture :: string
  debounceMs :: nat

text \<open>What one call of \<open>startWatching\<close> closes over.\<close>

record watcher =
  watcherId :: nat
  config :: AsciiAgentConfig
  workspaceRoot :: string

datatype classification = Ignore | TreeOnly | TreeAndArch

definition classifyEvent :: "minimatch \<Rightarrow> watcher \<Rightarrow> string \<Rightarrow> classification" where
  "classifyEvent mm w uri =
     (let relPath = workspaceRelativePath uri (workspaceRoot w);
          cfg = config w
      in if relPath \<in> {outputPaths_fileTree cfg, outputPaths_architecture cfg} then Ignore
         else if startsWith relPath ''.ascii_history/'' \<or> relPath = ''.ascii_history'' then Ignore
         else if matchesAnyPattern mm relPath (ignore cfg)
                 \<or> matchesAnyPattern mm (lastSegment relPath) (ignore cfg) then Ignore
         else if matchesAnyPattern mm relPath (architectureWatchPatterns cfg) then TreeAndArch
         else TreeOnly)"

text \<open>
  The module-level state of watcher.ts (\<open>treeDebounceTimer\<close>, \<open>archDebounceTimer\<close>) together
  with what it lives in: the clock, the runtime's pending timeouts, the subscriptions that
  were disposed, and a log of the handler calls (instant, watcher, handler).
\<close>

datatype regen = TreeRegen | ArchRegen

record watcherModule =
  clock :: nat
  nextHandle :: nat
  pending :: "(nat \<times> regen) timeout list"
  treeDebounceTimer :: "nat option"
  archDebounceTimer :: "nat option"
  stopped :: "nat list"
  signals :: "(nat \<times> nat \<times> regen) list"

definition freshModule :: "nat \<Rightarrow> watcherModule" where
  "freshModule t = \<lparr>clock = t, nextHandle = 0, pending = [], treeDebounceTimer = None,
                     archDebounceTimer = None, stopped = [], signals = []\<rparr>"

definition clearTimeout :: "nat \<Rightarrow> watcherModule \<Rightarrow> watcherModule" where
  "clearTimeout h m = m\<lparr>pending := withoutHandle h (pending m)\<rparr>"

definition setTimeout :: "nat \<times> regen \<Rightarrow> nat \<Rightarrow> watcherModule \<Rightarrow> nat \<times> watcherModule" where
  "setTimeout callback delay m =
     (nextHandle m,
      m\<lparr>pending := pending m @ [Timeout (nextHandle m) (clock m + delay) callback],
        nextHandle := Suc (nextHandle m)\<rparr>)"

definition scheduleTreeRegen :: "watcher \<Rightarrow> watcherModule \<Rightarrow> watcherModule" where
  "scheduleTreeRegen w m =
     (let m1 = (case treeDebounceTimer m of Some h \<Rightarrow> clearTimeout h m | None \<Rightarrow> m);
          (h, m2) = setTimeout (watcherId w, TreeRegen) (debounceMs (config w)) m1
      in m2\<lparr>treeDebounceTimer := Some h\<rparr>)"

definition scheduleArchRegen :: "watcher \<Rightarrow> watcherModule \<Rightarrow> watcherModule" where
  "scheduleArchRegen w m =
     (let m1 = (case archDebounceTimer m of Some h \<Rightarrow> clearTimeout h m | None \<Rightarrow> m);
          (h, m2) = setTimeout (watcherId w, ArchRegen) (debounceMs (config w)) m1
      in m2\<lparr>archDebounceTimer := Some h\<rparr>)"

definition handleEvent :: "minimatch \<Rightarrow> watcher \<Rightarrow> string \<Rightarrow> watcherModule \<Rightarrow> watcherModule" where
  "handleEvent mm w uri m =
     (case classifyEvent mm w uri of
        Ignore \<Rightarrow> m
      | TreeOnly \<Rightarrow> scheduleTreeRegen w m
      | TreeAndArch \<Rightarrow> scheduleArchRegen w (scheduleTreeRegen w m))"

definition onFileEvent :: "minimatch \<Rightarrow> watcher \<Rightarrow> string \<Rightarrow> watcherModule \<Rightarrow> watcherModule" where
  \<comment> \<open>the subscriptions \<open>onDidCreate\<close>, \<open>onDidChange\<close>, \<open>onDidDelete\<close>, until they are disposed\<close>
  "onFileEvent mm w uri m = (if watcherId w \<in> set (stopped m) then m else handleEvent mm w uri m)"

definition cancelPendingTimers :: "watcherModule \<Rightarrow> watcherModule" where
  "cancelPendingTimers m =
     (let m1 = (case treeDebounceTimer m of
                  Some h \<Rightarrow> (clearTimeout h m)\<lparr>treeDebounceTimer := None\<rparr> | None \<Rightarrow> m)
      in (case archDebounceTimer m1 of
            Some h \<Rightarrow> (clearTimeout h m1)\<lparr>archDebounceTimer := None\<rparr> | None \<Rightarrow> m1))"

definition dispose :: "watcher \<Rightarrow> watcherModule \<Rightarrow> watcherModule" where
  \<comment> \<open>the \<open>dispose\<close> of the session that \<open>startWatching\<close> returned for \<open>w\<close>\<close>
  "dispose w m =
     (let m1 = (case treeDebounceTimer m of
                  Some h \<Rightarrow> (clearTimeout h m)\<lparr>treeDebounceTimer := None\<rparr> | None \<Rightarrow> m);
          m2 = (case archDebounceTimer m1 of
                  Some h \<Rightarrow> (clearTimeout h m1)\<lparr>archDebounceTimer := None\<rparr> | None \<Rightarrow> m1)
      in m2\<lparr>stopped := watcherId w # stopped m2\<rparr>)"

definition fire :: "(nat \<times> regen) timeout \<Rightarrow> watcherModule \<Rightarrow> watcherModule" where
  \<comment> \<open>the callback given to \<open>setTimeout\<close>: reset the module's handle, call the handler\<close>
  "fire x m =
     (let t = max (clock m) (due x);
          m1 = m\<lparr>clock := t, pending := withoutHandle (handleOf x) (pending m)\<rparr>
      in (case snd (action x) of
            TreeRegen \<Rightarrow>
              m1\<lparr>treeDebounceTimer := None,
                 signals := signals m1 @ [(t, fst (action x), TreeRegen)]\<rparr>
          | ArchRegen \<Rightarrow>
              m1\<lparr>archDebounceTimer := None,
                 signals := signals m1 @ [(t, fst (action x), ArchRegen)]\<rparr>))"

text \<open>Letting time pass up to the instant \<open>t\<close>: every timeout due by then fires, in order.\<close>

function runTimers :: "nat \<Rightarrow> watcherModule \<Rightarrow> watcherModule" where
  "runTimers t m =
     (case nextDue t (pending m) of
        None \<Rightarrow> m\<lparr>clock := max (clock m) t\<rparr>
      | Some x \<Rightarrow> runTimers t (fire x m))"
  by pat_completeness auto
termination runTimers
proof (relation "measure (\<lambda>(t, m). length (pending m))")
  show "wf (measure (\<lambda>(t, m). length (pending m)))" by simp
next
  fix t and m :: watcherModule and x
  assume "nextDue t (pending m) = Some x"
  then have "x \<in> set (pending m)" by (simp add: nextDue_mem)
  then have "length (withoutHandle (handleOf x) (pending m)) < length (pending m)"
    by (rule withoutHandle_shorter)
  then show "((t, fire x m), (t, m)) \<in> measure (\<lambda>(t, m). length (pending m))"
    by (cases "snd (action x)") (simp_all add: fire_def Let_def)
qed

declare runTimers.simps [simp del]





definition treePending :: "watcherModule \<Rightarrow> (nat \<times> regen) timeout list" where
  "treePending m = filter (\<lambda>x. snd (action x) = TreeRegen) (pending m)"


text \<open>What can happen to the module, in any order and for any number of watcher sessions.\<close>

datatype watcherOp =
  FileEvent watcher string
| DisposeSession watcher
| CancelPending
| TimePasses nat

fun applyOp :: "minimatch \<Rightarrow> watcherOp \<Rightarrow> watcherModule \<Rightarrow> watcherModule" where
  "applyOp mm (FileEvent w uri) m = onFileEvent mm w uri m"
| "applyOp mm (DisposeSession w) m = dispose w m"
| "applyOp mm CancelPending m = cancelPendingTimers m"
| "applyOp mm (TimePasses t) m = runTimers t m"

text \<open>
  The timers that are pending are the ones the two module variables refer to, with
  handles the runtime has already given out.
\<close>

definition sharedTimers :: "watcherModule \<Rightarrow> bool" where
  "sharedTimers m =
     (distinct (map handleOf (pending m))
      \<and> (\<forall>x \<in> set (pending m). handleOf x < nextHandle m)
      \<and> (\<forall>x \<in> set (pending m). snd (action x) = TreeRegen \<longrightarrow> treeDebounceTimer m = Some (handleOf x))
      \<and> (\<forall>x \<in> set (pending m). snd (action x) \<noteq> TreeRegen \<longrightarrow> archDebounceTimer m = Some (handleOf x))
      \<and> (\<forall>h. treeDebounceTimer m = Some h \<longrightarrow> h < nextHandle m \<and> archDebounceTimer m \<noteq> Some h)
      \<and> (\<forall>h. archDebounceTimer m = Some h \<longrightarrow> h < nextHandle m))"

definition notOverdue :: "watcherModule \<Rightarrow> bool" where
  "notOverdue m = (\<forall>x \<in> set (pending m). clock m \<le> due x)"


text \<open>Two sessions on one workspace and a matcher, for the worked examples.\<close>

definition demoConfig :: AsciiAgentConfig where
  "demoConfig =
     \<lparr>ignore = [''node_modules''], architectureWatchPatterns = [''src/**''],
      outputPaths_fileTree = ''docs/file_tree.txt'',
      outputPaths_architecture = ''docs/architecture.txt'', debounceMs = 500\<rparr>"

definition demoWatcherA :: watcher where
  "demoWatcherA = \<lparr>watcherId = 1, config = demoConfig, workspaceRoot = ''/ws''\<rparr>"

definition demoWatcherB :: watcher where
  "demoWatcherB = \<lparr>watcherId = 2, config = demoConfig, workspaceRoot = ''/ws''\<rparr>"

definition demoMatch :: minimatch where
  "demoMatch path pattern = (pattern = ''src/**'' \<and> startsWith path ''src/'' \<or> path = pattern)"

section \<open>The language-model client (lm-client.ts)\<close>

text \<open>
  \<open>createLmClient\<close> returns asynchronous functions over shared variables. Each
  \<open>await\<close> on the outside world (\<open>selectChatModels\<close>, \<open>model.sendRequest\<close>, the next
  chunk of \<open>response.text\<close>, \<open>sleep\<close>) suspends a call until the event loop delivers the
  matching event, so the client is a state machine: the closure's variables, the runtime's
  timers, and for every call of \<open>sendPrompt\<close> the point at which it is suspended.
\<close>

type_synonym LanguageModelChat = string

datatype serviceError =
  LanguageModelError string string  \<comment> \<open>\<open>message\<close> and \<open>code\<close> of a \<open>vscode.LanguageModelError\<close>\<close>
| OtherError string

datatype thrown =
  FromService serviceError
| QuotaCooldownActive  \<comment> \<open>\<open>Error("ASCII Agent: LM quota cooldown active. Skipping request.")\<close>\<close>
| NoModelAvailable  \<comment> \<open>\<open>Error("ASCII Agent: No Copilot LM model available.")\<close>\<close>

datatype task =
  NotStarted
| AwaitSelect  \<comment> \<open>in \<open>await selectModel()\<close>\<close>
| AwaitSend nat  \<comment> \<open>in \<open>await model.sendRequest(...)\<close> of the attempt\<close>
| Streaming nat string  \<comment> \<open>in \<open>for await (const chunk of response.text)\<close>, with \<open>fullText\<close>\<close>
| Sleeping  \<comment> \<open>in \<open>await sleep(RETRY_DELAY_MS)\<close>\<close>
| Done "thrown + string"  \<comment> \<open>the promise of \<open>sendPrompt\<close> rejected or resolved\<close>

datatype selector = Eager | ForCall nat

datatype lmTimer = CooldownExpired | RetryWake nat

datatype effect =
  SelectChatModels nat
| SendRequest nat nat
| CtsCancel nat
| CtsDispose nat
| ConsentPrompt

text \<open>
  A \<open>CancellationTokenSource\<close> is named by the call that created it. The bundled build
  (out/extension.js) keeps the promise of the latest eager selection in
  \<open>initialSelectionPromise\<close> for its asynchronous \<open>isAvailable\<close>; lm-client.ts drops that
  promise. The field, and the calls waiting on it, are carried so that both versions of
  \<open>isAvailable\<close> are functions of one state.
\<close>

record lmClient =
  cachedModel :: "LanguageModelChat option"
  quotaCooldown :: bool
  cooldownTimer :: "nat option"
  currentRequestCts :: "nat option"
  listening :: bool
  initialSelectionPromise :: nat
  now :: nat
  timeouts :: "lmTimer timeout list"
  nextTimer :: nat
  selecting :: "(nat \<times> selector) list"
  nextSelection :: nat
  tasks :: "nat \<Rightarrow> task"
  cancelled :: "nat set"
  availabilityWaiters :: "(nat \<times> nat) list"
  availabilityAnswers :: "nat \<Rightarrow> bool option"
  effects :: "effect list"

definition QUOTA_COOLDOWN_MS :: nat where
  "QUOTA_COOLDOWN_MS = 60000"

definition RETRY_DELAY_MS :: nat where
  "RETRY_DELAY_MS = 3000"

definition toLowerCase :: "string \<Rightarrow> string" where
  "toLowerCase s =
     map (\<lambda>c. if 65 \<le> (of_char c :: nat) \<and> (of_char c :: nat) \<le> 90
              then char_of ((of_char c :: nat) + 32) else c) s"

fun includesStr :: "string \<Rightarrow> string \<Rightarrow> bool" where
  "includesStr [] sub = (sub = [])"
| "includesStr (c # cs) sub = (startsWith (c # cs) sub \<or> includesStr cs sub)"

definition isQuotaExceeded :: "string \<Rightarrow> string \<Rightarrow> bool" where
  "isQuotaExceeded message code =
     (let msg = toLowerCase message
      in includesStr msg ''quota'' \<or> includesStr msg ''rate limit'' \<or> code = ''quota-exceeded'')"

definition isConsentRequired :: "string \<Rightarrow> string \<Rightarrow> bool" where
  "isConsentRequired message code =
     (let msg = toLowerCase message
      in includesStr msg ''consent'' \<or> includesStr msg ''not authorized'' \<or> code = ''no-permissions'')"

definition startSelection :: "selector \<Rightarrow> lmClient \<Rightarrow> lmClient" where
  \<comment> \<open>\<open>selectModel()\<close> up to its \<open>await vscode.lm.selectChatModels(...)\<close>\<close>
  "startSelection who c =
     c\<lparr>selecting := selecting c @ [(nextSelection c, who)],
       nextSelection := Suc (nextSelection c),
       effects := effects c @ [SelectChatModels (nextSelection c)]\<rparr>"

definition createLmClient :: "nat \<Rightarrow> lmClient" where
  \<comment> \<open>the client as \<open>createLmClient()\<close> returns it at instant \<open>t\<close>: the eager selection is under way\<close>
  "createLmClient t =
     \<lparr>cachedModel = None, quotaCooldown = False, cooldownTimer = None,
      currentRequestCts = None, listening = True, initialSelectionPromise = 0,
      now = t, timeouts = [], nextTimer = 0, selecting = [(0, Eager)], nextSelection = 1,
      tasks = (\<lambda>k. NotStarted), cancelled = {}, availabilityWaiters = [],
      availabilityAnswers = (\<lambda>j. None), effects = [SelectChatModels 0]\<rparr>"

definition isAvailable :: "lmClient \<Rightarrow> bool" where
  \<comment> \<open>lm-client.ts: \<open>return cachedModel !== undefined && !quotaCooldown\<close>\<close>
  "isAvailable c = (cachedModel c \<noteq> None \<and> \<not> quotaCooldown c)"

definition cancelAll :: "lmClient \<Rightarrow> lmClient" where
  \<comment> \<open>also the \<open>if (currentRequestCts) { cancel(); dispose(); ... }\<close> of \<open>sendPrompt\<close>\<close>
  "cancelAll c =
     (case currentRequestCts c of
        None \<Rightarrow> c
      | Some p \<Rightarrow> c\<lparr>cancelled := insert p (cancelled c), currentRequestCts := None,
                     effects := effects c @ [CtsCancel p, CtsDispose p]\<rparr>)"

definition executeAttempt :: "nat \<Rightarrow> nat \<Rightarrow> lmClient \<Rightarrow> lmClient" where
  \<comment> \<open>the loop body of \<open>executeRequest\<close> up to \<open>await model.sendRequest(messages, {}, token)\<close>\<close>
  "executeAttempt k attempt c =
     c\<lparr>tasks := (tasks c)(k := AwaitSend attempt),
       effects := effects c @ [SendRequest k attempt]\<rparr>"

definition beginRequest :: "nat \<Rightarrow> lmClient \<Rightarrow> lmClient" where
  \<comment> \<open>\<open>sendPrompt\<close> from "Last-write-wins" to the first \<open>sendRequest\<close>\<close>
  "beginRequest k c = executeAttempt k 0 ((cancelAll c)\<lparr>currentRequestCts := Some k\<rparr>)"

definition settle :: "nat \<Rightarrow> thrown + string \<Rightarrow> lmClient \<Rightarrow> lmClient" where
  \<comment> \<open>\<open>executeRequest\<close> returned or threw: the \<open>finally\<close> block of \<open>sendPrompt\<close>\<close>
  "settle k result c =
     c\<lparr>tasks := (tasks c)(k := Done result),
       currentRequestCts := (if currentRequestCts c = Some k then None else currentRequestCts c),
       effects := effects c @ [CtsDispose k]\<rparr>"

definition sendPrompt :: "nat \<Rightarrow> lmClient \<Rightarrow> lmClient" where
  "sendPrompt k c =
     (if tasks c k \<noteq> NotStarted then c
      else if quotaCooldown c then c\<lparr>tasks := (tasks c)(k := Done (Inl QuotaCooldownActive))\<rparr>
      else (case cachedModel c of
              Some model \<Rightarrow> beginRequest k c
            | None \<Rightarrow> (startSelection (ForCall k) c)\<lparr>tasks := (tasks c)(k := AwaitSelect)\<rparr>))"

definition handleLanguageModelError :: "string \<Rightarrow> string \<Rightarrow> nat \<Rightarrow> lmClient \<Rightarrow> lmClient" where
  \<comment> \<open>every branch ends in \<open>throw err\<close>; this is the state it leaves\<close>
  "handleLanguageModelError message code attempt c =
     (if isQuotaExceeded message code then
        c\<lparr>quotaCooldown := True, cooldownTimer := Some (nextTimer c),
          timeouts := timeouts c @ [Timeout (nextTimer c) (now c + QUOTA_COOLDOWN_MS) CooldownExpired],
          nextTimer := Suc (nextTimer c)\<rparr>
      else if isConsentRequired message code then c\<lparr>effects := effects c @ [ConsentPrompt]\<rparr>
      else c)"

definition requestFailed :: "nat \<Rightarrow> nat \<Rightarrow> serviceError \<Rightarrow> lmClient \<Rightarrow> lmClient" where
  \<comment> \<open>the \<open>catch (err)\<close> of \<open>executeRequest\<close>\<close>
  "requestFailed k attempt err c =
     (case err of
        LanguageModelError message code \<Rightarrow>
          settle k (Inl (FromService err)) (handleLanguageModelError message code attempt c)
      | OtherError text \<Rightarrow>
          if attempt = 0 then
            c\<lparr>tasks := (tasks c)(k := Sleeping),
              timeouts := timeouts c @ [Timeout (nextTimer c) (now c + RETRY_DELAY_MS) (RetryWake k)],
              nextTimer := Suc (nextTimer c)\<rparr>
          else settle k (Inl (FromService err)) c)"

definition sendSettled :: "nat \<Rightarrow> serviceError option \<Rightarrow> lmClient \<Rightarrow> lmClient" where
  "sendSettled k outcome c =
     (case tasks c k of
        AwaitSend attempt \<Rightarrow>
          (case outcome of
             None \<Rightarrow> c\<lparr>tasks := (tasks c)(k := Streaming attempt [])\<rparr>
           | Some err \<Rightarrow> requestFailed k attempt err c)
      | _ \<Rightarrow> c)"

definition chunkArrived :: "nat \<Rightarrow> string \<Rightarrow> lmClient \<Rightarrow> lmClient" where
  "chunkArrived k text c =
     (case tasks c k of
        Streaming attempt fullText \<Rightarrow>
          if k \<in> cancelled c then settle k (Inr fullText) c
          else c\<lparr>tasks := (tasks c)(k := Streaming attempt (fullText @ text))\<rparr>
      | _ \<Rightarrow> c)"

definition streamEnded :: "nat \<Rightarrow> lmClient \<Rightarrow> lmClient" where
  "streamEnded k c =
     (case tasks c k of Streaming attempt fullText \<Rightarrow> settle k (Inr fullText) c | _ \<Rightarrow> c)"

definition streamFailed :: "nat \<Rightarrow> serviceError \<Rightarrow> lmClient \<Rightarrow> lmClient" where
  "streamFailed k err c =
     (case tasks c k of Streaming attempt fullText \<Rightarrow> requestFailed k attempt err c | _ \<Rightarrow> c)"

definition externalCancel :: "nat \<Rightarrow> lmClient \<Rightarrow> lmClient" where
  \<comment> \<open>\<open>token.onCancellationRequested(() => cts.cancel())\<close>, until the \<open>finally\<close> disposes it\<close>
  "externalCancel k c =
     (case tasks c k of
        AwaitSend attempt \<Rightarrow> c\<lparr>cancelled := insert k (cancelled c), effects := effects c @ [CtsCancel k]\<rparr>
      | Streaming attempt fullText \<Rightarrow>
          c\<lparr>cancelled := insert k (cancelled c), effects := effects c @ [CtsCancel k]\<rparr>
      | Sleeping \<Rightarrow> c\<lparr>cancelled := insert k (cancelled c), effects := effects c @ [CtsCancel k]\<rparr>
      | _ \<Rightarrow> c)"

definition answerWaiters :: "nat \<Rightarrow> lmClient \<Rightarrow> lmClient" where
  \<comment> \<open>out/extension.js: the calls of \<open>isAvailable\<close> suspended in \<open>await initialSelectionPromise\<close>\<close>
  "answerWaiters sel c =
     c\<lparr>availabilityAnswers :=
         (\<lambda>j. if (j, sel) \<in> set (availabilityWaiters c) then Some (isAvailable c)
              else availabilityAnswers c j),
       availabilityWaiters := filter (\<lambda>w. snd w \<noteq> sel) (availabilityWaiters c)\<rparr>"

definition selectSettled :: "nat \<Rightarrow> LanguageModelChat list option \<Rightarrow> lmClient \<Rightarrow> lmClient" where
  \<comment> \<open>\<open>selectModel\<close> after its \<open>await\<close>; \<open>None\<close> is a \<open>selectChatModels\<close> that throws\<close>
  "selectSettled sel outcome c =
     (case map_of (selecting c) sel of
        None \<Rightarrow> c
      | Some who \<Rightarrow>
          (let model = (case outcome of Some (m # ms) \<Rightarrow> Some m | _ \<Rightarrow> None);
               c1 = c\<lparr>cachedModel := model,
                      selecting := filter (\<lambda>p. fst p \<noteq> sel) (selecting c)\<rparr>;
               c2 = (case who of
                       Eager \<Rightarrow> c1
                     | ForCall k \<Rightarrow>
                         (case model of
                            None \<Rightarrow> c1\<lparr>tasks := (tasks c1)(k := Done (Inl NoModelAvailable))\<rparr>
                          | Some m \<Rightarrow> beginRequest k c1))
           in answerWaiters sel c2))"

definition modelsChanged :: "lmClient \<Rightarrow> lmClient" where
  \<comment> \<open>the listener on \<open>vscode.lm.onDidChangeChatModels\<close>\<close>
  "modelsChanged c =
     (if listening c then (startSelection Eager c)\<lparr>initialSelectionPromise := nextSelection c\<rparr>
      else c)"

definition isAvailable_bundled :: "nat \<Rightarrow> lmClient \<Rightarrow> lmClient" where
  \<comment> \<open>out/extension.js: \<open>if (cachedModel === void 0) await initialSelectionPromise; return ...\<close>\<close>
  "isAvailable_bundled j c =
     (if cachedModel c = None \<and> initialSelectionPromise c \<in> fst ` set (selecting c) then
        c\<lparr>availabilityWaiters := availabilityWaiters c @ [(j, initialSelectionPromise c)]\<rparr>
      else c\<lparr>availabilityAnswers := (availabilityAnswers c)(j \<mapsto> isAvailable c)\<rparr>)"

definition dispose_lm :: "lmClient \<Rightarrow> lmClient" where
  "dispose_lm c =
     (let c1 = (cancelAll c)\<lparr>listening := False\<rparr>
      in (case cooldownTimer c1 of
            Some h \<Rightarrow> c1\<lparr>timeouts := withoutHandle h (timeouts c1)\<rparr>
          | None \<Rightarrow> c1))"

definition fireTimer :: "lmTimer timeout \<Rightarrow> lmClient \<Rightarrow> lmClient" where
  "fireTimer x c =
     (let c1 = c\<lparr>now := max (now c) (due x), timeouts := withoutHandle (handleOf x) (timeouts c)\<rparr>
      in (case action x of
            CooldownExpired \<Rightarrow> c1\<lparr>quotaCooldown := False\<rparr>
          | RetryWake k \<Rightarrow> (case tasks c1 k of Sleeping \<Rightarrow> executeAttempt k 1 c1 | _ \<Rightarrow> c1)))"

function elapse :: "nat \<Rightarrow> lmClient \<Rightarrow> lmClient" where
  "elapse t c =
     (case nextDue t (timeouts c) of
        None \<Rightarrow> c\<lparr>now := max (now c) t\<rparr>
      | Some x \<Rightarrow> elapse t (fireTimer x c))"
  by pat_completeness auto
termination
proof (relation "measure (\<lambda>(t, c). length (timeouts c))")
  show "wf (measure (\<lambda>(t, c). length (timeouts c)))" by simp
next
  fix t and c :: lmClient and x
  assume "nextDue t (timeouts c) = Some x"
  then have "x \<in> set (timeouts c)" by (simp add: nextDue_mem)
  then have "length (withoutHandle (handleOf x) (timeouts c)) < length (timeouts c)"
    by (rule withoutHandle_shorter)
  then show "((t, fireTimer x c), (t, c)) \<in> measure (\<lambda>(t, c). length (timeouts c))"
    by (simp add: fireTimer_def Let_def executeAttempt_def split: lmTimer.splits task.splits)
qed

declare elapse.simps [simp del]

text \<open>What the event loop can deliver to the client, and the client's reaction.\<close>

datatype event =
  SendPrompt nat  \<comment> \<open>a caller invokes \<open>sendPrompt\<close>; the number names the call\<close>
| ExternalCancel nat  \<comment> \<open>the caller's own token is cancelled\<close>
| ModelsChanged
| SelectSettled nat "LanguageModelChat list option"
| SendSettled nat "serviceError option"  \<comment> \<open>\<open>sendRequest\<close> resolves (\<open>None\<close>) or rejects\<close>
| Chunk nat string
| StreamEnd nat
| StreamFail nat serviceError
| Elapse nat  \<comment> \<open>time passes up to the instant\<close>
| CancelAll
| Dispose
| IsAvailableBundled nat

fun step :: "event \<Rightarrow> lmClient \<Rightarrow> lmClient" where
  "step (SendPrompt k) c = sendPrompt k c"
| "step (ExternalCancel k) c = externalCancel k c"
| "step ModelsChanged c = modelsChanged c"
| "step (SelectSettled sel outcome) c = selectSettled sel outcome c"
| "step (SendSettled k outcome) c = sendSettled k outcome c"
| "step (Chunk k text) c = chunkArrived k text c"
| "step (StreamEnd k) c = streamEnded k c"
| "step (StreamFail k err) c = streamFailed k err c"
| "step (Elapse t) c = elapse t c"
| "step CancelAll c = cancelAll c"
| "step Dispose c = dispose_lm c"
| "step (IsAvailableBundled j) c = isAvailable_bundled j c"

definition run :: "event list \<Rightarrow> lmClient \<Rightarrow> lmClient" where
  "run es c = fold step es c"











section \<open>Properties of the context assembly\<close>

lemma gatherLoop_invariant:
  "measuredSize model sections = usedTokens \<Longrightarrow> usedTokens \<le> tokenBudget \<Longrightarrow>
   measuredSize model (fst (gatherLoop rd model tokenBudget ps (sections, usedTokens)))
     = snd (gatherLoop rd model tokenBudget ps (sections, usedTokens)) \<and>
   snd (gatherLoop rd model tokenBudget ps (sections, usedTokens)) \<le> tokenBudget"
proof (induction ps arbitrary: sections usedTokens)
  case Nil
  then show ?case by simp
next
  case (Cons p ps)
  show ?case
  proof (cases "rd p")
    case None
    from Cons.IH [OF Cons.prems] None show ?thesis by simp
  next
    case (Some content)
    let ?sec = "fileSection p content"
    let ?tc = "tokenCountOf model ?sec"
    show ?thesis
    proof (cases "usedTokens + ?tc > tokenBudget")
      case True
      with Some Cons.prems show ?thesis by (simp add: Let_def)
    next
      case False
      have m: "measuredSize model (sections @ [?sec]) = usedTokens + ?tc"
        using Cons.prems(1) by (simp add: measuredSize_def)
      have le: "usedTokens + ?tc \<le> tokenBudget" using False by simp
      from Cons.IH [OF m le] Some False show ?thesis by (simp add: Let_def)
    qed
  qed
qed


lemma gatherLoop_stops:
  "rd p = Some c \<Longrightarrow>
   snd (gatherLoop rd model tokenBudget ps acc) + tokenCountOf model (fileSection p c) > tokenBudget \<Longrightarrow>
   gatherLoop rd model tokenBudget (ps @ p # qs) acc = gatherLoop rd model tokenBudget ps acc"
proof (induction ps arbitrary: acc)
  case Nil
  then show ?case by (cases acc) (simp add: Let_def)
next
  case (Cons a ps)
  obtain sections usedTokens where acc: "acc = (sections, usedTokens)" by (cases acc)
  show ?case
  proof (cases "rd a")
    case None
    with Cons acc show ?thesis by simp
  next
    case (Some content)
    show ?thesis
    proof (cases "tokenBudget < usedTokens + tokenCountOf model (fileSection a content)")
      case True
      with Some acc show ?thesis by (simp add: Let_def)
    next
      case False
      with Some acc Cons.prems
      have "tokenBudget < snd (gatherLoop rd model tokenBudget ps
              (sections @ [fileSection a content],
               usedTokens + tokenCountOf model (fileSection a content)))
              + tokenCountOf model (fileSection p c)"
        by (simp add: Let_def)
      from Cons.IH [OF Cons.prems(1) this] Some acc False show ?thesis
        by (simp add: Let_def)
    qed
  qed
qed


lemma selectedSections_measured:
  "measuredSize model (selectedSections rd model tokenBudget prioritized)
     = snd (gatherLoop rd model tokenBudget prioritized ([], 0))"
  using gatherLoop_invariant [of model "[]" 0 tokenBudget rd prioritized]
  by (simp add: selectedSections_def measuredSize_def)

lemma gatherLoop_whole_sections:
  "\<forall>s \<in> set sections. \<exists>p c. rd p = Some c \<and> s = fileSection p c \<Longrightarrow>
   \<forall>s \<in> set (fst (gatherLoop rd model tokenBudget ps (sections, usedTokens))).
      \<exists>p c. rd p = Some c \<and> s = fileSection p c"
proof (induction ps arbitrary: sections usedTokens)
  case Nil
  then show ?case by simp
next
  case (Cons a ps)
  show ?case
  proof (cases "rd a")
    case None
    with Cons.IH [OF Cons.prems] show ?thesis by simp
  next
    case (Some content)
    have ext: "\<forall>s \<in> set (sections @ [fileSection a content]). \<exists>p c. rd p = Some c \<and> s = fileSection p c"
      using Cons.prems Some by auto
    from Cons.IH [OF ext] Cons.prems Some show ?thesis by (simp add: Let_def)
  qed
qed


lemma demo_big: "tokenCountOf None (fileSection ''big.ts'' (replicate 40 (CHR ''x''))) = 15"
  by (simp add: tokenCountOf_def estimateTokens_def fileSection_def)

lemma demo_small: "tokenCountOf None (fileSection ''small.ts'' ''ok'') = 6"
  by (simp add: tokenCountOf_def estimateTokens_def fileSection_def)



text \<open>
  Claim C6, as the code has it. A candidate that does not fit the remaining budget is the
  \<open>break\<close> of the loop: the context is the one assembled before it, whatever comes after
  it in priority order, and every section in the context is the whole section of a readable
  candidate (nothing is split).
\<close>
theorem first_candidate_that_does_not_fit_ends_assembly:
  "rd p = Some c \<Longrightarrow>
   tokenBudget < measuredSize model (selectedSections rd model tokenBudget ps)
                   + tokenCountOf model (fileSection p c) \<Longrightarrow>
   selectedSections rd model tokenBudget (ps @ p # qs) = selectedSections rd model tokenBudget ps
   \<and> (\<forall>s \<in> set (selectedSections rd model tokenBudget (ps @ p # qs)).
         \<exists>q content. rd q = Some content \<and> s = fileSection q content)"
proof -
  assume rd: "rd p = Some c"
    and big: "tokenBudget < measuredSize model (selectedSections rd model tokenBudget ps)
                   + tokenCountOf model (fileSection p c)"
  from big have "tokenBudget < snd (gatherLoop rd model tokenBudget ps ([], 0))
                   + tokenCountOf model (fileSection p c)"
    by (simp add: selectedSections_measured)
  from gatherLoop_stops [OF rd this]
  have eq: "selectedSections rd model tokenBudget (ps @ p # qs) = selectedSections rd model tokenBudget ps"
    by (simp add: selectedSections_def)
  have "\<forall>s \<in> set (selectedSections rd model tokenBudget (ps @ p # qs)).
         \<exists>q content. rd q = Some content \<and> s = fileSection q content"
    unfolding selectedSections_def by (rule gatherLoop_whole_sections) simp
  with eq show ?thesis by simp
qed

theorem first_candidate_that_does_not_fit_ends_assembly_witness:
  "demoFiles ''big.ts'' = Some (replicate 40 (CHR ''x''))
   \<and> 8 < measuredSize None (selectedSections demoFiles None 8 [])
           + tokenCountOf None (fileSection ''big.ts'' (replicate 40 (CHR ''x'')))
   \<and> selectedSections demoFiles None 8 ([] @ ''big.ts'' # [''small.ts'']) = selectedSections demoFiles None 8 []"
  using first_candidate_that_does_not_fit_ends_assembly
          [of demoFiles "''big.ts''" "replicate 40 (CHR ''x'')" 8 None "[]" "[''small.ts'']"]
        demo_big
  by (simp add: demoFiles_def selectedSections_def measuredSize_def)

text \<open>
  Claim C6 as stated fails: with budget 8, after \<open>big.ts\<close> (15 tokens) did not fit, the
  lower-priority \<open>small.ts\<close> (6 tokens) would fit and is not included.
\<close>

theorem skipped_candidate_stops_assembly_counterexample:
  "tokenCountOf None (fileSection ''big.ts'' (replicate 40 (CHR ''x''))) = 15
   \<and> tokenCountOf None (fileSection ''small.ts'' ''ok'') = 6
   \<and> selectedSections demoFiles None 8 [''big.ts'', ''small.ts''] = []
   \<and> gatherSourceContext demoFiles None 8 [''big.ts'', ''small.ts''] = []"
  using demo_big demo_small
  by (simp add: selectedSections_def gatherSourceContext_def demoFiles_def Let_def)

section \<open>Properties of the snapshot retention\<close>

lemma five_saves_max_three:
  "snapshotNames (saveAndPruneAll 3 fiveSaves noHistory)
     = [''architecture_T3.txt'', ''architecture_T4.txt'', ''architecture_T5.txt'']"
  by code_simp

lemma deleteFile_fields [simp]:
  "deleteFails (deleteFile name d) = deleteFails d"
  "mtimeOf (deleteFile name d) = mtimeOf d"
  "contentOf (deleteFile name d) = contentOf d"
  by (simp_all add: deleteFile_def)

lemma fold_deleteFile_fields [simp]:
  "deleteFails (fold (\<lambda>x. deleteFile (fst x)) xs d) = deleteFails d"
  "mtimeOf (fold (\<lambda>x. deleteFile (fst x)) xs d) = mtimeOf d"
  by (induction xs arbitrary: d) simp_all

lemma fold_deleteFile_entries:
  "entries (fold (\<lambda>x. deleteFile (fst x)) xs d)
     = map_option (filter (\<lambda>e. fst e \<notin> {n \<in> fst ` set xs. \<not> deleteFails d n})) (entries d)"
proof (induction xs arbitrary: d)
  case Nil
  then show ?case by (cases "entries d") simp_all
next
  case (Cons x xs)
  show ?case
  proof (cases "deleteFails d (fst x)")
    case True
    then have "deleteFile (fst x) d = d" by (simp add: deleteFile_def)
    with Cons True show ?thesis
      by (cases "entries d") (auto intro!: filter_cong)
  next
    case False
    then have e: "entries (deleteFile (fst x) d) = map_option (filter (\<lambda>e. fst e \<noteq> fst x)) (entries d)"
      by (simp add: deleteFile_def)
    show ?thesis
      by (cases "entries d") (use Cons [of "deleteFile (fst x) d"] e False in \<open>auto intro!: filter_cong\<close>)
  qed
qed

lemma pruneSnapshots_alt:
  "pruneSnapshots d maxSnapshots =
     (if entries d = None \<or> int (length (snapshotNames d)) \<le> maxSnapshots then d
      else fold (\<lambda>x. deleteFile (fst x)) (toDelete d maxSnapshots) d)"
  by (cases "entries d") (simp_all add: pruneSnapshots_def snapshotNames_def toDelete_def Let_def)

lemma set_slice0: "set (slice0 xs e) \<subseteq> set xs"
  by (auto simp: slice0_def dest: in_set_takeD)

lemma toDelete_subset: "fst ` set (toDelete d maxSnapshots) \<subseteq> set (snapshotNames d)"
proof -
  have "set (toDelete d maxSnapshots) \<subseteq> set (map (\<lambda>name. (name, statMtime d name)) (snapshotNames d))"
    unfolding toDelete_def Let_def using set_slice0 by fastforce
  then show ?thesis by auto
qed

lemma snapshotNames_distinct: "distinct (entryNames d) \<Longrightarrow> distinct (snapshotNames d)"
  by (cases "entries d") (simp_all add: entryNames_def snapshotNames_def distinct_map_filter)

lemma sorted_names_distinct:
  assumes "distinct names"
  shows "distinct (map fst (sort_key snd (map (\<lambda>name. (name, f name)) names)))"
proof -
  let ?ys = "map (\<lambda>name. (name, f name)) names"
  have "distinct ?ys" using assms by (simp add: distinct_map inj_on_def)
  moreover have "inj_on fst (set ?ys)" by (auto simp: inj_on_def)
  ultimately show ?thesis by (simp add: distinct_map)
qed

lemma toDelete_distinct:
  assumes "distinct (snapshotNames d)"
  shows "distinct (map fst (toDelete d maxSnapshots))"
proof -
  let ?sorted = "sort_key snd (map (\<lambda>name. (name, statMtime d name)) (snapshotNames d))"
  have "distinct (map fst ?sorted)" using assms by (rule sorted_names_distinct)
  then have "distinct (take k (map fst ?sorted))" for k by simp
  then show ?thesis by (simp add: toDelete_def Let_def slice0_def take_map)
qed

lemma toDelete_length:
  assumes "maxSnapshots < int (length (snapshotNames d))"
  shows "length (toDelete d maxSnapshots) = length (snapshotNames d) - nat (maxSnapshots - 1)"
  using assms by (auto simp: toDelete_def Let_def slice0_def min_def)

lemma filter_out_distinct:
  assumes "distinct xs" "distinct ys" "set ys \<subseteq> set xs"
  shows "length (filter (\<lambda>x. x \<notin> set ys) xs) = length xs - length ys"
proof -
  have "length (filter (\<lambda>x. x \<notin> set ys) xs) = card ({x. x \<notin> set ys} \<inter> set xs)"
    using assms(1) by (rule distinct_length_filter)
  also have "{x. x \<notin> set ys} \<inter> set xs = set xs - set ys" by auto
  also have "card (set xs - set ys) = card (set xs) - card (set ys)"
    using assms(3) by (simp add: card_Diff_subset)
  also have "\<dots> = length xs - length ys"
    using assms(1,2) by (simp add: distinct_card)
  finally show ?thesis .
qed

lemma snapshotNames_after_delete:
  "snapshotNames (fold (\<lambda>x. deleteFile (fst x)) xs d)
     = filter (\<lambda>n. n \<notin> {n \<in> fst ` set xs. \<not> deleteFails d n}) (snapshotNames d)"
  by (cases "entries d")
     (simp_all add: snapshotNames_def fold_deleteFile_entries filter_map comp_def conj_commute)

lemma snapshotNames_pruned:
  "snapshotNames (pruneSnapshots d maxSnapshots) =
     (if int (length (snapshotNames d)) \<le> maxSnapshots then snapshotNames d
      else filter (\<lambda>n. n \<notin> {n \<in> fst ` set (toDelete d maxSnapshots). \<not> deleteFails d n})
             (snapshotNames d))"
  by (cases "entries d")
     (auto simp: pruneSnapshots_alt snapshotNames_after_delete, simp add: snapshotNames_def)

lemma toDelete_oldest:
  assumes a: "a \<in> fst ` set (toDelete d maxSnapshots)"
    and b: "b \<in> set (snapshotNames d)" "b \<notin> fst ` set (toDelete d maxSnapshots)"
  shows "statMtime d a \<le> statMtime d b"
proof -
  let ?pairs = "map (\<lambda>name. (name, statMtime d name)) (snapshotNames d)"
  let ?sorted = "sort_key snd ?pairs"
  have "\<exists>k. toDelete d maxSnapshots = take k ?sorted"
    unfolding toDelete_def Let_def slice0_def by (simp split: if_splits) blast
  then obtain k where k: "toDelete d maxSnapshots = take k ?sorted" ..
  have graph: "\<And>x. x \<in> set ?sorted \<Longrightarrow> snd x = statMtime d (fst x)" by auto
  from a k obtain x where x: "x \<in> set (take k ?sorted)" "fst x = a" by auto
  have "(b, statMtime d b) \<in> set ?sorted" using b(1) by auto
  then have "(b, statMtime d b) \<in> set (take k ?sorted) \<union> set (drop k ?sorted)"
    by (metis append_take_drop_id set_append)
  moreover have "(b, statMtime d b) \<notin> set (take k ?sorted)"
    using b(2) k by force
  ultimately have y: "(b, statMtime d b) \<in> set (drop k ?sorted)" by simp
  have "sorted (map snd (take k ?sorted @ drop k ?sorted))" by simp
  then have "\<forall>u \<in> set (take k ?sorted). \<forall>v \<in> set (drop k ?sorted). snd u \<le> snd v"
    unfolding map_append sorted_append by auto
  with x(1) y have "snd x \<le> statMtime d b" by fastforce
  moreover have "snd x = statMtime d a"
    using graph [of x] x in_set_takeD by fastforce
  ultimately show ?thesis by simp
qed

text \<open>
  Claim C5, as the code has it. A prune whose deletions all succeed leaves the snapshot
  files alone when there are at most \<open>maxSnapshots\<close> of them, and otherwise deletes the
  oldest by modification time until \<open>maxSnapshots - 1\<close> remain; so at most
  \<open>maxSnapshots\<close> are retained, not at most \<open>maxSnapshots - 1\<close>. With maximum 3, five
  saves with a prune after each leave the three most recent snapshots.
\<close>

theorem prune_keeps_at_most_the_maximum:
  assumes dist: "distinct (entryNames d)" and ok: "\<forall>name. \<not> deleteFails d name"
  shows "length (snapshotNames (pruneSnapshots d maxSnapshots))
           = (if int (length (snapshotNames d)) \<le> maxSnapshots then length (snapshotNames d)
              else nat (maxSnapshots - 1))
       \<and> (0 \<le> maxSnapshots \<longrightarrow>
            int (length (snapshotNames (pruneSnapshots d maxSnapshots))) \<le> maxSnapshots)
       \<and> set (snapshotNames (pruneSnapshots d maxSnapshots)) \<subseteq> set (snapshotNames d)
       \<and> (\<forall>a \<in> set (snapshotNames d) - set (snapshotNames (pruneSnapshots d maxSnapshots)).
            \<forall>b \<in> set (snapshotNames (pruneSnapshots d maxSnapshots)).
              statMtime d a \<le> statMtime d b)
       \<and> snapshotNames (saveAndPruneAll 3 fiveSaves noHistory)
            = [''architecture_T3.txt'', ''architecture_T4.txt'', ''architecture_T5.txt'']"
proof -
  let ?names = "snapshotNames d"
  let ?del = "map fst (toDelete d maxSnapshots)"
  have dn: "distinct ?names" using dist by (rule snapshotNames_distinct)
  have after: "snapshotNames (pruneSnapshots d maxSnapshots) =
     (if int (length ?names) \<le> maxSnapshots then ?names
      else filter (\<lambda>n. n \<notin> set ?del) ?names)"
    using ok by (simp add: snapshotNames_pruned)
  have len: "length (snapshotNames (pruneSnapshots d maxSnapshots))
           = (if int (length ?names) \<le> maxSnapshots then length ?names else nat (maxSnapshots - 1))"
  proof (cases "int (length ?names) \<le> maxSnapshots")
    case True
    with after show ?thesis by simp
  next
    case False
    then have lt: "maxSnapshots < int (length ?names)" by simp
    have "length (filter (\<lambda>n. n \<notin> set ?del) ?names) = length ?names - length ?del"
      using dn toDelete_distinct [OF dn] toDelete_subset [of d maxSnapshots]
      by (intro filter_out_distinct) auto
    also have "\<dots> = length ?names - (length ?names - nat (maxSnapshots - 1))"
      using toDelete_length [OF lt] by simp
    also have "\<dots> = nat (maxSnapshots - 1)" using lt by auto
    finally show ?thesis using False after by simp
  qed
  have bound: "0 \<le> maxSnapshots \<longrightarrow>
      int (length (snapshotNames (pruneSnapshots d maxSnapshots))) \<le> maxSnapshots"
    unfolding len by auto
  have sub: "set (snapshotNames (pruneSnapshots d maxSnapshots)) \<subseteq> set ?names"
    unfolding after by auto
  have old: "\<forall>a \<in> set ?names - set (snapshotNames (pruneSnapshots d maxSnapshots)).
            \<forall>b \<in> set (snapshotNames (pruneSnapshots d maxSnapshots)).
              statMtime d a \<le> statMtime d b"
  proof (cases "int (length ?names) \<le> maxSnapshots")
    case True
    with after show ?thesis by simp
  next
    case False
    with after have eq: "snapshotNames (pruneSnapshots d maxSnapshots)
                           = filter (\<lambda>n. n \<notin> set ?del) ?names" by simp
    show ?thesis unfolding eq using toDelete_oldest [of _ d maxSnapshots] by auto
  qed
  from len bound sub old five_saves_max_three show ?thesis by blast
qed

theorem prune_keeps_at_most_the_maximum_witness:
  "distinct (entryNames mixedDir) \<and> (\<forall>name. \<not> deleteFails mixedDir name)
   \<and> length (snapshotNames mixedDir) = 3
   \<and> length (snapshotNames (pruneSnapshots mixedDir 2)) = 1
   \<and> length (snapshotNames (pruneSnapshots mixedDir 3)) = 3"
proof -
  have h1: "distinct (entryNames mixedDir)" by code_simp
  have h2: "\<forall>name. \<not> deleteFails mixedDir name" by (simp add: mixedDir_def)
  have n: "length (snapshotNames mixedDir) = 3" by code_simp
  from prune_keeps_at_most_the_maximum [OF h1 h2, of 2]
       prune_keeps_at_most_the_maximum [OF h1 h2, of 3] n h1 h2
  show ?thesis by simp
qed

text \<open>
  Claim C5 as stated fails: in its own scenario three files remain, not two, and a
  directory that holds exactly \<open>maxSnapshots\<close> snapshots is left at that count.
\<close>

theorem prune_at_maximum_counterexample:
  "snapshotNames (saveAndPruneAll 3 fiveSaves noHistory)
     = [''architecture_T3.txt'', ''architecture_T4.txt'', ''architecture_T5.txt'']
   \<and> snapshotNames (pruneSnapshots mixedDir 3) = [''a.txt'', ''b.txt'', ''c.txt'']"
  by code_simp

lemma otherEntries_after_delete:
  assumes "distinct (entryNames d)" "fst ` set xs \<subseteq> set (snapshotNames d)"
  shows "otherEntries (fold (\<lambda>x. deleteFile (fst x)) xs d) = otherEntries d"
proof (cases "entries d")
  case None
  then show ?thesis by (simp add: otherEntries_def fold_deleteFile_entries)
next
  case (Some es)
  have inj: "inj_on fst (set es)"
    using assms(1) Some by (simp add: entryNames_def distinct_map)
  have keep: "fst e \<notin> fst ` set xs" if "e \<in> set es" "\<not> isSnapshotFile e" for e
  proof
    assume "fst e \<in> fst ` set xs"
    with assms(2) have "fst e \<in> set (snapshotNames d)" by auto
    then obtain e' where e': "e' \<in> set es" "isSnapshotFile e'" "fst e' = fst e"
      using Some by (auto simp: snapshotNames_def)
    with inj that(1) have "e' = e" by (auto dest: inj_onD)
    with e'(2) that(2) show False by simp
  qed
  have "filter (\<lambda>e. \<not> isSnapshotFile e)
          (filter (\<lambda>e. fst e \<notin> {n \<in> fst ` set xs. \<not> deleteFails d n}) es)
        = filter (\<lambda>e. \<not> isSnapshotFile e) es"
    unfolding filter_filter by (rule filter_cong) (use keep in auto)
  then show ?thesis using Some by (simp add: otherEntries_def fold_deleteFile_entries)
qed

text \<open>
  Claim C10. In a directory (its entries have distinct names) a prune never removes an
  entry that is not a regular file named \<open>*.txt\<close>, and such entries do not count: the
  snapshots left are those left by the same prune run on the snapshot files alone.
\<close>

theorem prune_touches_only_snapshot_files:
  assumes "distinct (entryNames d)"
  shows "otherEntries (pruneSnapshots d maxSnapshots) = otherEntries d
       \<and> snapshotNames (pruneSnapshots d maxSnapshots)
           = snapshotNames (pruneSnapshots
               (d\<lparr>entries := map_option (filter isSnapshotFile) (entries d)\<rparr>) maxSnapshots)"
proof -
  let ?d2 = "d\<lparr>entries := map_option (filter isSnapshotFile) (entries d)\<rparr>"
  have other: "otherEntries (pruneSnapshots d maxSnapshots) = otherEntries d"
    using otherEntries_after_delete [OF assms toDelete_subset]
    by (simp add: pruneSnapshots_alt)
  have names: "snapshotNames ?d2 = snapshotNames d"
    by (cases "entries d") (simp_all add: snapshotNames_def)
  have stat: "statMtime ?d2 = statMtime d" by (simp add: statMtime_def fun_eq_iff)
  have del: "toDelete ?d2 maxSnapshots = toDelete d maxSnapshots"
    unfolding toDelete_def names stat ..
  have "snapshotNames (pruneSnapshots ?d2 maxSnapshots) = snapshotNames (pruneSnapshots d maxSnapshots)"
    unfolding snapshotNames_pruned names del by simp
  with other show ?thesis by simp
qed

theorem prune_touches_only_snapshot_files_witness:
  "distinct (entryNames mixedDir)
   \<and> otherEntries (pruneSnapshots mixedDir 2) = [(''notes.md'', File), (''old.txt'', Directory)]
   \<and> snapshotNames (pruneSnapshots mixedDir 2) = [''a.txt'']"
proof -
  have h1: "distinct (entryNames mixedDir)" by code_simp
  have o: "otherEntries mixedDir = [(''notes.md'', File), (''old.txt'', Directory)]" by code_simp
  have s: "snapshotNames (pruneSnapshots
             (mixedDir\<lparr>entries := map_option (filter isSnapshotFile) (entries mixedDir)\<rparr>) 2) = [''a.txt'']"
    by code_simp
  from prune_touches_only_snapshot_files [OF h1, of 2] o s h1 show ?thesis by simp
qed

section \<open>Properties of the watcher\<close>

lemma fire_fields:
  "pending (fire x m) = withoutHandle (handleOf x) (pending m)"
  "clock (fire x m) = max (clock m) (due x)"
  "nextHandle (fire x m) = nextHandle m"
  "stopped (fire x m) = stopped m"
  "treeDebounceTimer (fire x m) = (if snd (action x) = TreeRegen then None else treeDebounceTimer m)"
  "archDebounceTimer (fire x m) = (if snd (action x) = ArchRegen then None else archDebounceTimer m)"
  "signals (fire x m) = signals m @ [(max (clock m) (due x), fst (action x), snd (action x))]"
  by (cases "snd (action x)"; simp add: fire_def Let_def)+

lemma distinct_withoutHandle:
  "distinct (map handleOf q) \<Longrightarrow> distinct (map handleOf (withoutHandle h q))"
  by (simp add: withoutHandle_def distinct_map_filter)

lemma withoutHandle_distinct_eq:
  "distinct (map handleOf q) \<Longrightarrow> x \<in> set q \<Longrightarrow> withoutHandle (handleOf x) q = filter (\<lambda>y. y \<noteq> x) q"
  unfolding withoutHandle_def
  by (rule filter_cong) (auto simp: distinct_map inj_on_def)

lemma runTimers_None: "nextDue t (pending m) = None \<Longrightarrow> runTimers t m = m\<lparr>clock := max (clock m) t\<rparr>"
  by (subst runTimers.simps) simp

lemma runTimers_Some: "nextDue t (pending m) = Some x \<Longrightarrow> runTimers t m = runTimers t (fire x m)"
  by (subst runTimers.simps) simp

lemma runTimers_pending:
  "distinct (map handleOf (pending m)) \<Longrightarrow>
   pending (runTimers t m) = filter (\<lambda>x. t < due x) (pending m)"
proof (induction t m rule: runTimers.induct)
  case (1 t m)
  show ?case
  proof (cases "nextDue t (pending m)")
    case None
    then have "\<forall>x \<in> set (pending m). t < due x" by (simp add: nextDue_None)
    with None show ?thesis by (simp add: runTimers_None)
  next
    case (Some x)
    then have x: "x \<in> set (pending m)" "due x \<le> t" by (simp_all add: nextDue_mem)
    have d: "distinct (map handleOf (pending (fire x m)))"
      using "1.prems" by (simp add: fire_fields distinct_withoutHandle)
    have "pending (runTimers t m) = filter (\<lambda>y. t < due y) (withoutHandle (handleOf x) (pending m))"
      using "1.IH" [OF Some d] Some by (simp add: runTimers_Some fire_fields)
    also have "\<dots> = filter (\<lambda>y. t < due y) (filter (\<lambda>y. y \<noteq> x) (pending m))"
      using "1.prems" x(1) by (simp add: withoutHandle_distinct_eq)
    also have "\<dots> = filter (\<lambda>y. t < due y) (pending m)"
      unfolding filter_filter by (rule filter_cong) (use x(2) in auto)
    finally show ?thesis .
  qed
qed



lemma runTimers_handles:
  "(treeDebounceTimer (runTimers t m) = None \<or> treeDebounceTimer (runTimers t m) = treeDebounceTimer m)
   \<and> (archDebounceTimer (runTimers t m) = None \<or> archDebounceTimer (runTimers t m) = archDebounceTimer m)"
proof (induction t m rule: runTimers.induct)
  case (1 t m)
  show ?case
  proof (cases "nextDue t (pending m)")
    case None
    then show ?thesis by (simp add: runTimers_None)
  next
    case (Some x)
    with "1.IH" [OF Some] show ?thesis by (auto simp: runTimers_Some fire_fields split: if_splits)
  qed
qed

lemma runTimers_treeTimer_kept:
  "\<forall>x \<in> set (treePending m). t < due x \<Longrightarrow>
   treeDebounceTimer (runTimers t m) = treeDebounceTimer m"
proof (induction t m rule: runTimers.induct)
  case (1 t m)
  show ?case
  proof (cases "nextDue t (pending m)")
    case None
    then show ?thesis by (simp add: runTimers_None)
  next
    case (Some x)
    then have x: "x \<in> set (pending m)" "due x \<le> t" by (simp_all add: nextDue_mem)
    with "1.prems" have nt: "snd (action x) \<noteq> TreeRegen" by (auto simp: treePending_def)
    have "\<forall>y \<in> set (treePending (fire x m)). t < due y"
      using "1.prems" by (auto simp: treePending_def fire_fields withoutHandle_def)
    from "1.IH" [OF Some this] nt Some show ?thesis by (simp add: runTimers_Some fire_fields)
  qed
qed



lemma sharedTimers_fresh: "sharedTimers (freshModule t)"
  by (simp add: sharedTimers_def freshModule_def)

lemma scheduleTreeRegen_effect:
  assumes "sharedTimers m"
  shows "sharedTimers (scheduleTreeRegen w m)"
    and "treePending (scheduleTreeRegen w m)
           = [Timeout (nextHandle m) (clock m + debounceMs (config w)) (watcherId w, TreeRegen)]"
    and "treeDebounceTimer (scheduleTreeRegen w m) = Some (nextHandle m)"
    and "archDebounceTimer (scheduleTreeRegen w m) = archDebounceTimer m"
    and "clock (scheduleTreeRegen w m) = clock m"
    and "signals (scheduleTreeRegen w m) = signals m"
    and "stopped (scheduleTreeRegen w m) = stopped m"
    and "notOverdue m \<Longrightarrow> notOverdue (scheduleTreeRegen w m)"
proof -
  have none: "filter (\<lambda>x. snd (action x) = TreeRegen) (pending m1) = []"
    if "m1 = (case treeDebounceTimer m of Some h \<Rightarrow> clearTimeout h m | None \<Rightarrow> m)" for m1
    using assms that
    by (auto simp: sharedTimers_def clearTimeout_def withoutHandle_def filter_empty_conv
          split: option.splits regen.splits)
  show "treePending (scheduleTreeRegen w m)
           = [Timeout (nextHandle m) (clock m + debounceMs (config w)) (watcherId w, TreeRegen)]"
    using none [OF refl]
    by (auto simp: scheduleTreeRegen_def treePending_def setTimeout_def Let_def clearTimeout_def
          split: option.splits)
  show "sharedTimers (scheduleTreeRegen w m)"
    using assms
    by (auto simp: sharedTimers_def scheduleTreeRegen_def setTimeout_def Let_def clearTimeout_def
          withoutHandle_def distinct_map_filter less_Suc_eq
          split: option.splits regen.splits)
  show "treeDebounceTimer (scheduleTreeRegen w m) = Some (nextHandle m)"
    "archDebounceTimer (scheduleTreeRegen w m) = archDebounceTimer m"
    "clock (scheduleTreeRegen w m) = clock m"
    "signals (scheduleTreeRegen w m) = signals m"
    "stopped (scheduleTreeRegen w m) = stopped m"
    by (auto simp: scheduleTreeRegen_def setTimeout_def Let_def clearTimeout_def split: option.splits)
  show "notOverdue (scheduleTreeRegen w m)" if "notOverdue m"
    using that
    by (auto simp: notOverdue_def scheduleTreeRegen_def setTimeout_def Let_def clearTimeout_def
          withoutHandle_def split: option.splits)
qed

lemma scheduleArchRegen_effect:
  assumes "sharedTimers m"
  shows "sharedTimers (scheduleArchRegen w m)"
    and "treePending (scheduleArchRegen w m) = treePending m"
    and "treeDebounceTimer (scheduleArchRegen w m) = treeDebounceTimer m"
    and "clock (scheduleArchRegen w m) = clock m"
    and "signals (scheduleArchRegen w m) = signals m"
    and "stopped (scheduleArchRegen w m) = stopped m"
    and "notOverdue m \<Longrightarrow> notOverdue (scheduleArchRegen w m)"
proof -
  have keep: "filter (\<lambda>x. snd (action x) = TreeRegen) (withoutHandle h (pending m))
                = filter (\<lambda>x. snd (action x) = TreeRegen) (pending m)"
    if "archDebounceTimer m = Some h" for h
    unfolding withoutHandle_def filter_filter
    by (rule filter_cong) (use assms that in \<open>auto simp: sharedTimers_def\<close>)
  show "treePending (scheduleArchRegen w m) = treePending m"
    using keep
    by (auto simp: scheduleArchRegen_def treePending_def setTimeout_def Let_def clearTimeout_def
          split: option.splits)
  show "sharedTimers (scheduleArchRegen w m)"
    using assms
    by (auto simp: sharedTimers_def scheduleArchRegen_def setTimeout_def Let_def clearTimeout_def
          withoutHandle_def distinct_map_filter less_Suc_eq
          split: option.splits regen.splits)
  show "treeDebounceTimer (scheduleArchRegen w m) = treeDebounceTimer m"
    "clock (scheduleArchRegen w m) = clock m"
    "signals (scheduleArchRegen w m) = signals m"
    "stopped (scheduleArchRegen w m) = stopped m"
    by (auto simp: scheduleArchRegen_def setTimeout_def Let_def clearTimeout_def split: option.splits)
  show "notOverdue (scheduleArchRegen w m)" if "notOverdue m"
    using that
    by (auto simp: notOverdue_def scheduleArchRegen_def setTimeout_def Let_def clearTimeout_def
          withoutHandle_def split: option.splits)
qed

lemma sharedTimers_fire:
  assumes "sharedTimers m" "x \<in> set (pending m)"
  shows "sharedTimers (fire x m)"
proof (cases "snd (action x) = TreeRegen")
  case True
  with assms have var: "treeDebounceTimer m = Some (handleOf x)" by (simp add: sharedTimers_def)
  have gone: "snd (action y) \<noteq> TreeRegen"
    if "y \<in> set (pending m)" "handleOf y \<noteq> handleOf x" for y
    using assms(1) that var by (auto simp: sharedTimers_def)
  show ?thesis
    unfolding sharedTimers_def fire_fields
    using assms(1) True gone
    by (simp add: sharedTimers_def withoutHandle_def distinct_map_filter)
next
  case False
  with assms have var: "archDebounceTimer m = Some (handleOf x)" by (simp add: sharedTimers_def)
  have gone: "snd (action y) = TreeRegen"
    if "y \<in> set (pending m)" "handleOf y \<noteq> handleOf x" for y
    using assms(1) that var by (auto simp: sharedTimers_def)
  have ar: "snd (action x) = ArchRegen" using False by (cases "snd (action x)") simp_all
  show ?thesis
    unfolding sharedTimers_def fire_fields
    using assms(1) ar gone
    by (simp add: sharedTimers_def withoutHandle_def distinct_map_filter)
qed

lemma sharedTimers_runTimers: "sharedTimers m \<Longrightarrow> sharedTimers (runTimers t m)"
proof (induction t m rule: runTimers.induct)
  case (1 t m)
  show ?case
  proof (cases "nextDue t (pending m)")
    case None
    with "1.prems" show ?thesis by (simp add: runTimers_None sharedTimers_def)
  next
    case (Some x)
    then have "x \<in> set (pending m)" by (simp add: nextDue_mem)
    with "1.prems" have "sharedTimers (fire x m)" by (rule sharedTimers_fire)
    with "1.IH" [OF Some] Some show ?thesis by (simp add: runTimers_Some)
  qed
qed


lemma treePending_runTimers:
  assumes "sharedTimers m"
  shows "treePending (runTimers t m) = filter (\<lambda>x. t < due x) (treePending m)"
  using assms
  by (simp add: treePending_def runTimers_pending sharedTimers_def conj_commute)

lemma treePending_short: "sharedTimers m \<Longrightarrow> length (treePending m) \<le> 1"
proof -
  assume s: "sharedTimers m"
  have d: "distinct (map handleOf (treePending m))"
    using s by (simp add: sharedTimers_def treePending_def distinct_map_filter)
  have same: "\<And>x y. x \<in> set (treePending m) \<Longrightarrow> y \<in> set (treePending m) \<Longrightarrow> handleOf x = handleOf y"
    using s by (auto simp: sharedTimers_def treePending_def) (metis option.inject)
  show ?thesis
  proof (cases "treePending m")
    case Nil
    then show ?thesis by simp
  next
    case (Cons x xs)
    show ?thesis
    proof (cases xs)
      case Nil
      with Cons show ?thesis by simp
    next
      case (Cons y ys)
      with \<open>treePending m = x # xs\<close> d same [of x y] show ?thesis by auto
    qed
  qed
qed










text \<open>
  Claim C1. An event whose workspace-relative path is one of the two output paths, is
  \<open>.ascii_history\<close> or lies under \<open>.ascii_history/\<close> is classified \<open>Ignore\<close> and leaves
  the module as it was (no timer is set or reset), for every matcher and every list of
  ignore patterns: the two checks come before the patterns are looked at.
\<close>

theorem self_writes_are_ignored:
  assumes "relPath = workspaceRelativePath uri (workspaceRoot w)"
    and "relPath = outputPaths_fileTree (config w) \<or> relPath = outputPaths_architecture (config w)
         \<or> relPath = ''.ascii_history'' \<or> startsWith relPath ''.ascii_history/''"
  shows "classifyEvent mm w uri = Ignore
       \<and> handleEvent mm w uri m = m
       \<and> onFileEvent mm w uri m = m"
proof -
  have "classifyEvent mm w uri = Ignore"
    using assms by (auto simp: classifyEvent_def Let_def)
  then show ?thesis by (simp add: handleEvent_def onFileEvent_def)
qed

theorem self_writes_are_ignored_witness:
  "classifyEvent demoMatch demoWatcherA ''/ws/docs/architecture.txt'' = Ignore
   \<and> handleEvent demoMatch demoWatcherA ''/ws/docs/architecture.txt'' (freshModule 0) = freshModule 0
   \<and> onFileEvent demoMatch demoWatcherA ''/ws/.ascii_history/architecture_T1.txt'' (freshModule 0)
       = freshModule 0"
proof -
  have r1: "workspaceRelativePath ''/ws/docs/architecture.txt'' (workspaceRoot demoWatcherA)
              = ''docs/architecture.txt''" by code_simp
  have r2: "workspaceRelativePath ''/ws/.ascii_history/architecture_T1.txt'' (workspaceRoot demoWatcherA)
              = ''.ascii_history/architecture_T1.txt''" by code_simp
  have o: "outputPaths_architecture (config demoWatcherA) = ''docs/architecture.txt''"
    by (simp add: demoWatcherA_def demoConfig_def)
  have h: "startsWith ''.ascii_history/architecture_T1.txt'' ''.ascii_history/''"
    by (simp add: startsWith_def)
  from self_writes_are_ignored [OF r1 [symmetric], of demoMatch "freshModule 0"]
       self_writes_are_ignored [OF r2 [symmetric], of demoMatch "freshModule 0"] o h
  show ?thesis by simp
qed

lemma cancel_clears:
  assumes "sharedTimers m"
  shows "pending (cancelPendingTimers m) = []"
    and "treeDebounceTimer (cancelPendingTimers m) = None"
    and "archDebounceTimer (cancelPendingTimers m) = None"
    and "signals (cancelPendingTimers m) = signals m"
    and "nextHandle (cancelPendingTimers m) = nextHandle m"
proof -
  have "\<And>x. x \<in> set (pending m) \<Longrightarrow> snd (action x) = TreeRegen \<Longrightarrow>
          treeDebounceTimer m = Some (handleOf x)"
    and "\<And>x. x \<in> set (pending m) \<Longrightarrow> snd (action x) \<noteq> TreeRegen \<Longrightarrow>
          archDebounceTimer m = Some (handleOf x)"
    using assms by (auto simp: sharedTimers_def)
  then have gone: "\<And>x. x \<in> set (pending m) \<Longrightarrow>
          treeDebounceTimer m = Some (handleOf x) \<or> archDebounceTimer m = Some (handleOf x)"
    by blast
  have "x \<notin> set (pending (cancelPendingTimers m))" for x
    using gone [of x]
    by (cases "treeDebounceTimer m"; cases "archDebounceTimer m")
       (auto simp: cancelPendingTimers_def clearTimeout_def withoutHandle_def Let_def)
  then show "pending (cancelPendingTimers m) = []"
    by (cases "pending (cancelPendingTimers m)") auto
  show "treeDebounceTimer (cancelPendingTimers m) = None"
    "archDebounceTimer (cancelPendingTimers m) = None"
    "signals (cancelPendingTimers m) = signals m"
    "nextHandle (cancelPendingTimers m) = nextHandle m"
    by (cases "treeDebounceTimer m"; cases "archDebounceTimer m";
        simp add: cancelPendingTimers_def clearTimeout_def Let_def)+
qed

lemma dispose_cancel: "dispose w m = (cancelPendingTimers m)\<lparr>stopped := watcherId w # stopped m\<rparr>"
  by (cases "treeDebounceTimer m"; cases "archDebounceTimer m")
     (simp_all add: dispose_def cancelPendingTimers_def Let_def clearTimeout_def)

lemma sharedTimers_cancel: "sharedTimers m \<Longrightarrow> sharedTimers (cancelPendingTimers m)"
  using cancel_clears [of m] by (simp add: sharedTimers_def)

lemma sharedTimers_dispose: "sharedTimers m \<Longrightarrow> sharedTimers (dispose w m)"
  using cancel_clears [of m] by (simp add: sharedTimers_def dispose_cancel)

lemma sharedTimers_onFileEvent: "sharedTimers m \<Longrightarrow> sharedTimers (onFileEvent mm w uri m)"
  using scheduleTreeRegen_effect(1) [of m w]
        scheduleArchRegen_effect(1) [of "scheduleTreeRegen w m" w]
  by (cases "classifyEvent mm w uri") (simp_all add: onFileEvent_def handleEvent_def)

lemma sharedTimers_applyOp: "sharedTimers m \<Longrightarrow> sharedTimers (applyOp mm op m)"
  by (cases op)
     (simp_all add: sharedTimers_onFileEvent sharedTimers_dispose sharedTimers_cancel
        sharedTimers_runTimers)

lemma sharedTimers_reachable: "sharedTimers m \<Longrightarrow> sharedTimers (fold (applyOp mm) ops m)"
  by (induction ops arbitrary: m) (simp_all add: sharedTimers_applyOp)

lemma runTimers_nothing_pending: "pending m = [] \<Longrightarrow> signals (runTimers t m) = signals m"
  by (simp add: runTimers_None nextDue_def)

text \<open>
  Claim C9, as the code has it. The two timer handles are variables of the module, shared
  by every session \<open>startWatching\<close> returns: whatever sessions did what, at most one tree
  timer and two timers in all are pending, and the \<open>dispose\<close> of any session \<open>w\<close> (as
  \<open>cancelPendingTimers\<close>) clears them all, whichever session set them, so that no handler
  is called afterwards.
\<close>

theorem timers_are_shared_by_all_sessions:
  "length (treePending (fold (applyOp mm) ops (freshModule t0))) \<le> 1
   \<and> length (pending (fold (applyOp mm) ops (freshModule t0))) \<le> 2
   \<and> pending (dispose w (fold (applyOp mm) ops (freshModule t0))) = []
   \<and> pending (cancelPendingTimers (fold (applyOp mm) ops (freshModule t0))) = []
   \<and> signals (runTimers t (dispose w (fold (applyOp mm) ops (freshModule t0))))
       = signals (fold (applyOp mm) ops (freshModule t0))"
proof -
  let ?m = "fold (applyOp mm) ops (freshModule t0)"
  have s: "sharedTimers ?m" using sharedTimers_fresh by (rule sharedTimers_reachable)
  have t: "length (treePending ?m) \<le> 1" using s by (rule treePending_short)
  have d: "pending (dispose w ?m) = []" using cancel_clears(1) [OF s] by (simp add: dispose_cancel)
  have sg: "signals (dispose w ?m) = signals ?m" using cancel_clears(4) [OF s] by (simp add: dispose_cancel)
  have r: "signals (runTimers t (dispose w ?m)) = signals ?m"
    using runTimers_nothing_pending [OF d] sg by simp
  let ?arch = "filter (\<lambda>x. snd (action x) \<noteq> TreeRegen) (pending ?m)"
  have da: "distinct (map handleOf ?arch)"
    using s by (simp add: sharedTimers_def distinct_map_filter)
  have same: "\<And>x y. x \<in> set ?arch \<Longrightarrow> y \<in> set ?arch \<Longrightarrow> handleOf x = handleOf y"
    using s by (auto simp: sharedTimers_def) (metis option.inject)
  have a: "length ?arch \<le> 1"
  proof (cases ?arch)
    case Nil
    then show ?thesis by simp
  next
    case (Cons x xs)
    show ?thesis
    proof (cases xs)
      case Nil
      with Cons show ?thesis by simp
    next
      case (Cons y ys)
      with \<open>?arch = x # xs\<close> da same [of x y] show ?thesis by auto
    qed
  qed
  have "length (pending ?m) = length (treePending ?m) + length ?arch"
    unfolding treePending_def by (rule sum_length_filter_compl [symmetric])
  with t a have two: "length (pending ?m) \<le> 2" by simp
  from t two d cancel_clears(1) [OF s] r show ?thesis by simp
qed

theorem timers_are_shared_by_all_sessions_witness:
  "pending (fold (applyOp demoMatch) [FileEvent demoWatcherB ''/ws/src/a.ts''] (freshModule 0))
     = [Timeout 0 500 (2, TreeRegen), Timeout 1 500 (2, ArchRegen)]
   \<and> pending (dispose demoWatcherA
        (fold (applyOp demoMatch) [FileEvent demoWatcherB ''/ws/src/a.ts''] (freshModule 0))) = []"
proof -
  have p: "pending (fold (applyOp demoMatch) [FileEvent demoWatcherB ''/ws/src/a.ts''] (freshModule 0))
     = [Timeout 0 500 (2, TreeRegen), Timeout 1 500 (2, ArchRegen)]" by code_simp
  from timers_are_shared_by_all_sessions
         [of demoMatch "[FileEvent demoWatcherB ''/ws/src/a.ts'']" 0 demoWatcherA 0] p
  show ?thesis by simp
qed

text \<open>
  Claim C9 as stated fails: session B has both timers pending and would be signalled at
  500; disposing session A clears B's timers, and B, never disposed, is not signalled.
\<close>

theorem dispose_of_one_session_clears_the_other_counterexample:
  "stopped (dispose demoWatcherA (onFileEvent demoMatch demoWatcherB ''/ws/src/a.ts'' (freshModule 0)))
     = [1]
   \<and> signals (runTimers 10000 (onFileEvent demoMatch demoWatcherB ''/ws/src/a.ts'' (freshModule 0)))
     = [(500, 2, TreeRegen), (500, 2, ArchRegen)]
   \<and> signals (runTimers 10000
        (dispose demoWatcherA (onFileEvent demoMatch demoWatcherB ''/ws/src/a.ts'' (freshModule 0))))
     = []"
  by code_simp

section \<open>Properties of the language-model client\<close>























lemma tasks_handle: "tasks (handleLanguageModelError message code attempt c) = tasks c"
  by (simp add: handleLanguageModelError_def)























lemma isAvailable_bundled_waits:
  assumes "cachedModel c = None" "\<not> quotaCooldown c"
    and "map_of (selecting c) (initialSelectionPromise c) = Some Eager"
  shows "availabilityAnswers
           (selectSettled (initialSelectionPromise c) (Some (model # others))
              (isAvailable_bundled j c)) j = Some True"
proof -
  from assms(3) have "initialSelectionPromise c \<in> fst ` set (selecting c)"
    by (metis map_of_eq_None_iff option.distinct(1))
  with assms show ?thesis
    by (simp add: isAvailable_bundled_def selectSettled_def answerWaiters_def Let_def
          isAvailable_def)
qed

text \<open>
  Claim C8 on lm-client.ts: \<open>isAvailable\<close> is synchronous and answers false while the eager
  selection is still under way, although that selection then succeeds; the bundled build,
  which awaits the selection, answers true.
\<close>

theorem isAvailable_answers_before_selection_settles:
  "\<not> isAvailable (createLmClient t)
   \<and> isAvailable (step (SelectSettled 0 (Some (model # others))) (createLmClient t))
   \<and> availabilityAnswers
        (run [IsAvailableBundled j, SelectSettled 0 (Some (model # others))] (createLmClient t)) j
       = Some True"
  by (simp add: isAvailable_def createLmClient_def selectSettled_def answerWaiters_def Let_def
        run_def isAvailable_bundled_def)



end
